theory Spec2Isabelle
  imports Complex_Main "HOL-Library.Char_ord" "HOL-Library.List_Lexorder" "HOL-Library.Multiset"
begin

section \<open>Data model\<close>

text \<open>
  A cell of a table. Missing values (pandas NaN / None) are \<open>NA\<close>. Numbers are kept as
  exact rationals: the integer 1 and the float 1.0 are the same value \<open>Num 1\<close>, as they
  are equal in Python. Strings are \<open>Str\<close>.
\<close>

datatype cell = NA | Num rat | Str string

text \<open>Python exceptions that the modelled code can raise.\<close>

datatype py_error =
    IndexError | KeyError | ValueError | TypeError
  | FileNotFoundError | FileExistsError | NotADirectoryError | IsADirectoryError
  | EmptyDataError | ParserError

text \<open>\<open>except OSError\<close> catches OSError and its subclasses.\<close>

fun is_OSError :: "py_error \<Rightarrow> bool" where
  "is_OSError FileNotFoundError = True"
| "is_OSError FileExistsError = True"
| "is_OSError NotADirectoryError = True"
| "is_OSError IsADirectoryError = True"
| "is_OSError _ = False"

text \<open>
  A pandas DataFrame: the row index (row labels) and the named columns in declaration
  order, each column holding one cell per row. A Series is one named column with its index.
\<close>

record dataframe =
  df_index :: "nat list"
  df_columns :: "(string \<times> cell list) list"

record series =
  s_name :: string
  s_index :: "nat list"
  s_values :: "cell list"

definition columns :: "dataframe \<Rightarrow> string list" where
  "columns df = map fst (df_columns df)"



section \<open>File system\<close>


datatype fcontent =
    CsvDoc "string list" "cell list list"
  | JsonDoc "(cell \<times> nat) list"
  | Partial
  | Blob string




section \<open>Source Reader: extract.py\<close>




section \<open>Ordering of cells\<close>

text \<open>
  Sorting of label values: numbers by value, strings lexicographically by character code
  (Python's string order), and the missing value last, which is where numpy and
  scikit-learn place NaN. Numbers and strings are never compared by the code modelled
  here (a column mixing them makes the library raise TypeError before it sorts); the
  order between them only completes the linear order.
\<close>

instantiation cell :: linorder
begin

fun less_eq_cell :: "cell \<Rightarrow> cell \<Rightarrow> bool" where
  "less_eq_cell (Num a) (Num b) = (a \<le> b)"
| "less_eq_cell (Num a) (Str b) = True"
| "less_eq_cell (Num a) NA = True"
| "less_eq_cell (Str a) (Num b) = False"
| "less_eq_cell (Str a) (Str b) = (a \<le> b)"
| "less_eq_cell (Str a) NA = True"
| "less_eq_cell NA NA = True"
| "less_eq_cell NA (Num b) = False"
| "less_eq_cell NA (Str b) = False"

definition less_cell :: "cell \<Rightarrow> cell \<Rightarrow> bool" where
  "less_cell x y = (x \<le> y \<and> \<not> y \<le> x)"

instance
proof
  fix x y z :: cell
  show "(x < y) = (x \<le> y \<and> \<not> y \<le> x)" by (simp add: less_cell_def)
  show "x \<le> x" by (cases x) simp_all
  show "x \<le> y \<Longrightarrow> y \<le> z \<Longrightarrow> x \<le> z"
    by (cases x; cases y; cases z) auto
  show "x \<le> y \<Longrightarrow> y \<le> x \<Longrightarrow> x = y"
    by (cases x; cases y) auto
  show "x \<le> y \<or> y \<le> x"
    by (cases x; cases y) auto
qed

end

section \<open>pandas operations used by transform.py\<close>

definition isnull :: "cell \<Rightarrow> bool" where
  "isnull c = (c = NA)"

text \<open>\<open>Series.fillna(v)\<close>: every missing cell becomes \<open>v\<close>, the others stay.\<close>

definition fillna :: "cell \<Rightarrow> cell list \<Rightarrow> cell list" where
  "fillna v xs = map (\<lambda>c. if isnull c then v else c) xs"

text \<open>The distinct values of a list in the order of their first occurrence.\<close>

fun unique_in_order :: "'a list \<Rightarrow> 'a list" where
  "unique_in_order [] = []"
| "unique_in_order (x # xs) = x # filter (\<lambda>y. y \<noteq> x) (unique_in_order xs)"

text \<open>
  Whether the non-missing values can be sorted: they are all numbers or all strings
  (comparing a string with a number raises TypeError in Python).
\<close>

fun is_Num :: "cell \<Rightarrow> bool" where
  "is_Num (Num q) = True"
| "is_Num _ = False"

fun is_Str :: "cell \<Rightarrow> bool" where
  "is_Str (Str s) = True"
| "is_Str _ = False"

definition sortable :: "cell list \<Rightarrow> bool" where
  "sortable xs = (list_all (\<lambda>c. is_Num c \<or> isnull c) xs \<or> list_all (\<lambda>c. is_Str c \<or> isnull c) xs)"

text \<open>
  \<open>Series.mode()\<close> (dropna=True). pandas counts the non-missing values in order of first
  occurrence (\<open>value_counts\<close>), keeps those of highest count (\<open>htable_mode\<close>) and then
  sorts them; if they cannot be sorted it only warns and keeps the order of the count.
\<close>

definition value_counts :: "cell list \<Rightarrow> (cell \<times> nat) list" where
  "value_counts xs =
     (let ys = filter (\<lambda>c. \<not> isnull c) xs
      in map (\<lambda>v. (v, count_list ys v)) (unique_in_order ys))"

definition htable_mode :: "cell list \<Rightarrow> cell list" where
  "htable_mode xs =
     (let vc = value_counts xs;
          mx = fold max (map snd vc) 0
      in map fst (filter (\<lambda>(v, c). c = mx) vc))"

definition mode :: "cell list \<Rightarrow> cell list" where
  "mode xs =
     (let npresult = htable_mode xs
      in if sortable npresult then sort npresult else npresult)"

text \<open>
  \<open>astype(int)\<close> on one cell: a number is truncated toward zero, a string goes through
  Python's \<open>int()\<close> (the parameter \<open>py_int\<close>, \<open>None\<close> where \<open>int()\<close> raises ValueError), a
  missing value cannot be converted.
\<close>

definition trunc :: "rat \<Rightarrow> int" where
  "trunc q = (if 0 \<le> q then \<lfloor>q\<rfloor> else \<lceil>q\<rceil>)"

fun astype_int :: "(string \<Rightarrow> int option) \<Rightarrow> cell \<Rightarrow> py_error + cell" where
  "astype_int py_int NA = Inl ValueError"
| "astype_int py_int (Num q) = Inr (Num (of_int (trunc q)))"
| "astype_int py_int (Str s) =
     (case py_int s of None \<Rightarrow> Inl ValueError | Some i \<Rightarrow> Inr (Num (of_int i)))"

text \<open>Running a fallible conversion over a list stops at the first error.\<close>

fun mapM :: "('a \<Rightarrow> py_error + 'b) \<Rightarrow> 'a list \<Rightarrow> py_error + 'b list" where
  "mapM f [] = Inr []"
| "mapM f (x # xs) =
     (case f x of
        Inl e \<Rightarrow> Inl e
      | Inr y \<Rightarrow> (case mapM f xs of Inl e \<Rightarrow> Inl e | Inr ys \<Rightarrow> Inr (y # ys)))"

text \<open>
  \<open>df[names] = df[names].f()\<close> for a cell-wise operation: every column whose name is in
  \<open>names\<close> is replaced, the others and the index stay.
\<close>

definition map_cols :: "string list \<Rightarrow> (cell list \<Rightarrow> cell list) \<Rightarrow> dataframe \<Rightarrow> dataframe" where
  "map_cols names f df =
     df\<lparr>df_columns := map (\<lambda>(nm, vs). if nm \<in> set names then (nm, f vs) else (nm, vs))
                         (df_columns df)\<rparr>"

definition astype_cols ::
  "(string \<Rightarrow> int option) \<Rightarrow> string list \<Rightarrow> dataframe \<Rightarrow> py_error + dataframe" where
  "astype_cols py_int names df =
     (case mapM (\<lambda>(nm, vs). if nm \<in> set names
                             then (case mapM (astype_int py_int) vs of
                                     Inl e \<Rightarrow> Inl e | Inr ws \<Rightarrow> Inr (nm, ws))
                             else Inr (nm, vs))
                (df_columns df) of
        Inl e \<Rightarrow> Inl e
      | Inr cs \<Rightarrow> Inr (df\<lparr>df_columns := cs\<rparr>))"

text \<open>
  \<open>df[name]\<close> used as a Series: KeyError if no column has the name. If several columns
  have it pandas returns a DataFrame, on which the code's next step (\<open>if \<dots>.any()\<close>, or
  the label encoder's check for a one-dimensional input) raises ValueError.
\<close>

definition getitem :: "dataframe \<Rightarrow> string \<Rightarrow> py_error + cell list" where
  "getitem df name =
     (case filter (\<lambda>(nm, vs). nm = name) (df_columns df) of
        [] \<Rightarrow> Inl KeyError
      | [(nm, vs)] \<Rightarrow> Inr vs
      | _ \<Rightarrow> Inl ValueError)"

section \<open>Cleaner: transform.py, \<open>_clean\<close>\<close>

definition any_missing :: "dataframe \<Rightarrow> bool" where
  "any_missing df = list_ex (\<lambda>(nm, vs). list_ex isnull vs) (df_columns df)"

definition clean :: "(string \<Rightarrow> int option) \<Rightarrow> dataframe \<Rightarrow> py_error + dataframe" where
  "clean py_int df =
     (if df_columns df = [] then Inl IndexError
      else
        let TARGET_COL = last (columns df);
            SYMPTOM_COLS = butlast (columns df);
            filled =
              (if any_missing df then
                 (let df1 = map_cols SYMPTOM_COLS (fillna (Num 0)) df
                  in case getitem df1 TARGET_COL of
                       Inl e \<Rightarrow> Inl e
                     | Inr tgt \<Rightarrow>
                         if list_ex isnull tgt then
                           (case mode tgt of
                              [] \<Rightarrow> Inl KeyError
                            | mode_type # _ \<Rightarrow> Inr (map_cols [TARGET_COL] (fillna mode_type) df1))
                         else Inr df1)
               else Inr df)
        in case filled of
             Inl e \<Rightarrow> Inl e
           | Inr df2 \<Rightarrow> astype_cols py_int SYMPTOM_COLS df2)"

text \<open>
  What the Cleaner does to one feature cell: a missing cell is first filled with 0, then the
  cell is converted by \<open>astype(int)\<close>.
\<close>

definition cleaned_feature :: "(string \<Rightarrow> int option) \<Rightarrow> cell \<Rightarrow> cell \<Rightarrow> bool" where
  "cleaned_feature py_int c c' = (astype_int py_int (if isnull c then Num 0 else c) = Inr c')"

subsection \<open>Example tables\<close>

definition raw_example :: dataframe where
  "raw_example = \<lparr>df_index = [0, 1, 2],
     df_columns = [(''fever'', [Num 1, NA, Num (3 / 2)]), (''label'', [Str ''B'', Str ''A'', NA])]\<rparr>"

definition cleaned_example :: dataframe where
  "cleaned_example = \<lparr>df_index = [0, 1, 2],
     df_columns = [(''fever'', [Num 1, Num 0, Num 1]), (''label'', [Str ''B'', Str ''A'', Str ''A''])]\<rparr>"

section \<open>Encoder: transform.py, \<open>_encode\<close>\<close>

text \<open>
  scikit-learn's LabelEncoder. \<open>fit\<close> stores the sorted distinct values as \<open>classes_\<close>
  (TypeError when strings and numbers are mixed); \<open>transform\<close> replaces every value by
  its position in \<open>classes_\<close> and raises ValueError on a value that is not a class.
\<close>

definition fit :: "cell list \<Rightarrow> py_error + cell list" where
  "fit y = (if sortable y then Inr (sort (remdups y)) else Inl TypeError)"

fun index_of :: "'a list \<Rightarrow> 'a \<Rightarrow> nat option" where
  "index_of [] v = None"
| "index_of (c # cs) v = (if c = v then Some 0 else map_option Suc (index_of cs v))"

definition transform :: "cell list \<Rightarrow> cell list \<Rightarrow> py_error + nat list" where
  "transform classes y =
     mapM (\<lambda>v. case index_of classes v of None \<Rightarrow> Inl ValueError | Some i \<Rightarrow> Inr i) y"

definition fit_transform :: "cell list \<Rightarrow> py_error + (cell list \<times> nat list)" where
  "fit_transform y =
     (case fit y of
        Inl e \<Rightarrow> Inl e
      | Inr classes \<Rightarrow>
          (case transform classes y of Inl e \<Rightarrow> Inl e | Inr codes \<Rightarrow> Inr (classes, codes)))"

text \<open>\<open>df.drop(columns=[name])\<close>: every column of that name is removed.\<close>

definition drop_columns :: "string list \<Rightarrow> dataframe \<Rightarrow> dataframe" where
  "drop_columns names df =
     df\<lparr>df_columns := filter (\<lambda>(nm, vs). nm \<notin> set names) (df_columns df)\<rparr>"

text \<open>
  \<open>_encode(df)\<close> returns the features \<open>X\<close>, the codes \<open>y\<close> as a Series named \<open>target\<close> on the
  index of \<open>df\<close>, and the mapping as the ordered pairs of the dictionary.
\<close>

definition encode ::
  "dataframe \<Rightarrow> py_error + (dataframe \<times> series \<times> (cell \<times> nat) list)" where
  "encode df =
     (if df_columns df = [] then Inl IndexError
      else
        let TARGET_COL = last (columns df);
            X = drop_columns [TARGET_COL] df
        in case getitem df TARGET_COL of
             Inl e \<Rightarrow> Inl e
           | Inr y_raw \<Rightarrow>
               (case fit_transform y_raw of
                  Inl e \<Rightarrow> Inl e
                | Inr (classes, y_encoded) \<Rightarrow>
                    (case transform classes classes of
                       Inl e \<Rightarrow> Inl e
                     | Inr encoded_values \<Rightarrow>
                         Inr (X,
                              \<lparr>s_name = ''target'', s_index = df_index df,
                               s_values = map (\<lambda>i. Num (of_nat i)) y_encoded\<rparr>,
                              zip classes encoded_values))))"

text \<open>
  Decoding: the inverse of the mapping sends a code back to its label. The codes are
  stored in the Series as numbers; \<open>code_of_cell\<close> reads a whole non-negative number.
\<close>

definition code_of_cell :: "cell \<Rightarrow> nat option" where
  "code_of_cell c = (case c of Num q \<Rightarrow> (if q = of_nat (nat \<lfloor>q\<rfloor>) then Some (nat \<lfloor>q\<rfloor>) else None) | _ \<Rightarrow> None)"

definition inverse_mapping :: "(cell \<times> nat) list \<Rightarrow> nat \<Rightarrow> cell option" where
  "inverse_mapping m = map_of (map (\<lambda>(k, v). (v, k)) m)"

definition decode :: "(cell \<times> nat) list \<Rightarrow> cell \<Rightarrow> cell option" where
  "decode m c = (case code_of_cell c of None \<Rightarrow> None | Some i \<Rightarrow> inverse_mapping m i)"

text \<open>
  The mapping as the specification words it: the distinct label values in sorted order,
  numbered from 0.
\<close>

definition label_mapping :: "cell list \<Rightarrow> (cell \<times> nat) list" where
  "label_mapping labels = zip (sorted_list_of_set (set labels)) [0..<card (set labels)]"

section \<open>Random numbers: numpy's RandomState\<close>

text \<open>
  The generator state is of an arbitrary type \<open>'g\<close>. The raw draw \<open>rnd g mx\<close> (the bits
  the Mersenne Twister delivers for a request with upper bound \<open>mx\<close>, and the next state) is
  a parameter; \<open>random_interval\<close> returns a number in \<open>0..mx\<close>, which numpy obtains from the
  raw bits by masking and rejection and the model by reduction modulo \<open>mx + 1\<close>.
\<close>

type_synonym 'g rnd = "'g \<Rightarrow> nat \<Rightarrow> nat \<times> 'g"

definition random_interval :: "'g rnd \<Rightarrow> 'g \<Rightarrow> nat \<Rightarrow> nat \<times> 'g" where
  "random_interval rnd g mx = (case rnd g mx of (v, g') \<Rightarrow> (v mod (mx + 1), g'))"

text \<open>
  \<open>RandomState.shuffle\<close> on a one-dimensional array: for \<open>i = n-1, \<dots>, 1\<close> draw \<open>j\<close> in
  \<open>0..i\<close> and swap the entries \<open>i\<close> and \<open>j\<close>.
\<close>

fun shuffle_from :: "'g rnd \<Rightarrow> nat \<Rightarrow> 'a list \<Rightarrow> 'g \<Rightarrow> 'a list \<times> 'g" where
  "shuffle_from rnd 0 xs g = (xs, g)"
| "shuffle_from rnd (Suc i) xs g =
     (case random_interval rnd g (Suc i) of
        (j, g') \<Rightarrow> shuffle_from rnd i (xs[Suc i := xs ! j, j := xs ! Suc i]) g')"

definition shuffle :: "'g rnd \<Rightarrow> 'a list \<Rightarrow> 'g \<Rightarrow> 'a list \<times> 'g" where
  "shuffle rnd xs g = shuffle_from rnd (length xs - 1) xs g"

text \<open>\<open>rng.permutation(n)\<close> shuffles \<open>arange(n)\<close>; \<open>rng.permutation(array)\<close> shuffles a copy.\<close>

definition permutation :: "'g rnd \<Rightarrow> nat \<Rightarrow> 'g \<Rightarrow> nat list \<times> 'g" where
  "permutation rnd n g = shuffle rnd [0..<n] g"

text \<open>\<open>rng.choice(a, size, replace=False)\<close> is \<open>a[permutation(len(a))[:size]]\<close>.\<close>

definition choice :: "'g rnd \<Rightarrow> nat list \<Rightarrow> nat \<Rightarrow> 'g \<Rightarrow> nat list \<times> 'g" where
  "choice rnd a n g =
     (case permutation rnd (length a) g of
        (idx, g') \<Rightarrow> (map (\<lambda>k. a ! k) (take n idx), g'))"

text \<open>
  \<open>check_random_state(seed)\<close>: \<open>None\<close> is the process-wide generator of \<open>numpy.random\<close>, an
  integer makes a fresh \<open>RandomState(seed)\<close> (the seeding \<open>seed_rng\<close> is a parameter).
\<close>

definition check_random_state :: "(nat \<Rightarrow> 'g) \<Rightarrow> nat option \<Rightarrow> 'g \<Rightarrow> 'g" where
  "check_random_state seed_rng random_state global_rng =
     (case random_state of None \<Rightarrow> global_rng | Some seed \<Rightarrow> seed_rng seed)"

section \<open>scikit-learn: stratified shuffle split\<close>

text \<open>
  \<open>floored[inds] += 1\<close>: every position listed in \<open>inds\<close> is incremented once.
\<close>

definition incr_at :: "nat list \<Rightarrow> nat list \<Rightarrow> nat list" where
  "incr_at inds floored =
     map (\<lambda>i. if i \<in> set inds then floored ! i + 1 else floored ! i) [0..<length floored]"

text \<open>
  The loop of \<open>_approximate_mode\<close> over the distinct remainders, largest first: the classes
  with that remainder get one more draw each, chosen at random if not all are needed.
\<close>

fun add_by_remainder ::
  "'g rnd \<Rightarrow> rat list \<Rightarrow> rat list \<Rightarrow> nat list \<Rightarrow> nat \<Rightarrow> 'g \<Rightarrow> nat list \<times> 'g" where
  "add_by_remainder rnd [] remainder floored need_to_add g = (floored, g)"
| "add_by_remainder rnd (v # values) remainder floored need_to_add g =
     (let inds = filter (\<lambda>i. remainder ! i = v) [0..<length remainder];
          add_now = min (length inds) need_to_add
      in case choice rnd inds add_now g of
           (chosen, g') \<Rightarrow>
             (let floored' = incr_at chosen floored;
                  need' = need_to_add - add_now
              in if need' = 0 then (floored', g')
                 else add_by_remainder rnd values remainder floored' need' g'))"

text \<open>
  \<open>_approximate_mode(class_counts, n_draws, rng)\<close>. The library computes
  \<open>class_counts / class_counts.sum() * n_draws\<close> in floating point; the model computes it
  exactly, in the rationals.
\<close>

definition approximate_mode :: "'g rnd \<Rightarrow> nat list \<Rightarrow> nat \<Rightarrow> 'g \<Rightarrow> nat list \<times> 'g" where
  "approximate_mode rnd class_counts n_draws g =
     (let continuous = map (\<lambda>c. (of_nat c :: rat) / of_nat (sum_list class_counts) * of_nat n_draws)
                           class_counts;
          floored = map (\<lambda>q. nat \<lfloor>q\<rfloor>) continuous;
          need_to_add = n_draws - sum_list floored
      in if need_to_add > 0 then
           (let remainder = map (\<lambda>q. q - of_int \<lfloor>q\<rfloor>) continuous;
                values = rev (sort (remdups remainder))
            in add_by_remainder rnd values remainder floored need_to_add g)
         else (floored, g))"

text \<open>
  The loop over the classes: a random permutation of the class, its first \<open>n_i\<close> members
  go to train and the next \<open>t_i\<close> to test. Each entry of the list is a class: its row
  positions, its count, \<open>n_i\<close> and \<open>t_i\<close>. \<open>take(\<dots>, mode="clip")\<close> clips a position to the
  last member.
\<close>

fun per_class ::
  "'g rnd \<Rightarrow> (nat list \<times> nat \<times> nat \<times> nat) list \<Rightarrow> 'g \<Rightarrow> nat list \<times> nat list \<times> 'g" where
  "per_class rnd [] g = ([], [], g)"
| "per_class rnd ((class_indices, class_count, n, t) # rest) g =
     (case permutation rnd class_count g of
        (perm, g1) \<Rightarrow>
          (let perm_indices = map (\<lambda>k. class_indices ! min k (length class_indices - 1)) perm
           in case per_class rnd rest g1 of
                (train, test, g2) \<Rightarrow>
                  (take n perm_indices @ train, take t (drop n perm_indices) @ test, g2)))"

text \<open>
  \<open>StratifiedShuffleSplit(test_size=n_test, train_size=n_train)._iter_indices\<close>, first
  split. The classes are the sorted distinct values of \<open>y\<close>.
\<close>

definition iter_indices ::
  "'g rnd \<Rightarrow> cell list \<Rightarrow> nat \<Rightarrow> nat \<Rightarrow> 'g \<Rightarrow> (py_error + nat list \<times> nat list) \<times> 'g" where
  "iter_indices rnd y n_train n_test rng =
     (if list_ex isnull y then (Inl ValueError, rng)
      else if \<not> sortable y then (Inl TypeError, rng)
      else
        let classes = sort (remdups y);
            n_classes = length classes;
            class_counts = map (count_list y) classes
        in if list_ex (\<lambda>c. c < 2) class_counts then (Inl ValueError, rng)
           else if n_train < n_classes then (Inl ValueError, rng)
           else if n_test < n_classes then (Inl ValueError, rng)
           else
             let class_indices = map (\<lambda>c. filter (\<lambda>i. y ! i = c) [0..<length y]) classes
             in case approximate_mode rnd class_counts n_train rng of
                  (n_i, rng1) \<Rightarrow>
                    (let class_counts_remaining = map (\<lambda>(c, n). c - n) (zip class_counts n_i)
                     in case approximate_mode rnd class_counts_remaining n_test rng1 of
                          (t_i, rng2) \<Rightarrow>
                            (case per_class rnd
                                    (zip class_indices (zip class_counts (zip n_i t_i))) rng2 of
                               (train, test, rng3) \<Rightarrow>
                                 (case shuffle rnd train rng3 of
                                    (train', rng4) \<Rightarrow>
                                      (case shuffle rnd test rng4 of
                                         (test', rng5) \<Rightarrow> (Inr (train', test'), rng5))))))"

text \<open>
  \<open>_validate_shuffle_split\<close> for a fractional test size and no train size:
  \<open>n_test = ceil(test_size * n_samples)\<close>, \<open>n_train = n_samples - n_test\<close>, and an empty
  train set is an error.
\<close>

definition validate_shuffle_split :: "nat \<Rightarrow> rat \<Rightarrow> py_error + nat \<times> nat" where
  "validate_shuffle_split n_samples test_size =
     (let n_test = nat \<lceil>test_size * of_nat n_samples\<rceil>;
          n_train = n_samples - n_test
      in if n_train = 0 then Inl ValueError else Inr (n_train, n_test))"

text \<open>
  Selection of rows by position (\<open>iloc\<close>); a position outside the column is an IndexError.
\<close>

definition positions :: "nat list \<Rightarrow> 'a list \<Rightarrow> py_error + 'a list" where
  "positions idx vs = mapM (\<lambda>i. if i < length vs then Inr (vs ! i) else Inl IndexError) idx"

definition df_iloc :: "dataframe \<Rightarrow> nat list \<Rightarrow> py_error + dataframe" where
  "df_iloc df idx =
     (case positions idx (df_index df) of
        Inl e \<Rightarrow> Inl e
      | Inr ix \<Rightarrow>
          (case mapM (\<lambda>(nm, vs). case positions idx vs of
                                    Inl e \<Rightarrow> Inl e | Inr ws \<Rightarrow> Inr (nm, ws))
                     (df_columns df) of
             Inl e \<Rightarrow> Inl e
           | Inr cs \<Rightarrow> Inr \<lparr>df_index = ix, df_columns = cs\<rparr>))"

definition s_iloc :: "series \<Rightarrow> nat list \<Rightarrow> py_error + series" where
  "s_iloc sr idx =
     (case positions idx (s_index sr) of
        Inl e \<Rightarrow> Inl e
      | Inr ix \<Rightarrow>
          (case positions idx (s_values sr) of
             Inl e \<Rightarrow> Inl e
           | Inr ws \<Rightarrow> Inr \<lparr>s_name = s_name sr, s_index = ix, s_values = ws\<rparr>))"

text \<open>The four partitions, in the order of the dictionary that \<open>_split\<close> builds.\<close>

datatype frame = DF dataframe | SR series

record partitions =
  X_train :: dataframe
  X_test :: dataframe
  y_train :: series
  y_test :: series

definition items :: "partitions \<Rightarrow> (string \<times> frame) list" where
  "items r = [(''X_train'', DF (X_train r)), (''X_test'', DF (X_test r)),
              (''y_train'', SR (y_train r)), (''y_test'', SR (y_test r))]"

text \<open>
  \<open>train_test_split(X, y, test_size, random_state, stratify)\<close> with a stratification
  vector. It returns the result together with the state of the process-wide generator,
  which it advances only when \<open>random_state\<close> is \<open>None\<close>.
\<close>

definition train_test_split ::
  "'g rnd \<Rightarrow> (nat \<Rightarrow> 'g) \<Rightarrow> dataframe \<Rightarrow> series \<Rightarrow> rat \<Rightarrow> nat option \<Rightarrow> cell list \<Rightarrow> 'g
     \<Rightarrow> (py_error + partitions) \<times> 'g" where
  "train_test_split rnd seed_rng X y test_size random_state stratify global_rng =
     (let n_samples = length (df_index X)
      in if length (s_values y) \<noteq> n_samples \<or> length stratify \<noteq> n_samples
         then (Inl ValueError, global_rng)
         else case validate_shuffle_split n_samples test_size of
                Inl e \<Rightarrow> (Inl e, global_rng)
              | Inr (n_train, n_test) \<Rightarrow>
                  (case iter_indices rnd stratify n_train n_test
                          (check_random_state seed_rng random_state global_rng) of
                     (res, rng') \<Rightarrow>
                       (let global' = (case random_state of None \<Rightarrow> rng' | Some seed \<Rightarrow> global_rng)
                        in case res of
                             Inl e \<Rightarrow> (Inl e, global')
                           | Inr (train, test) \<Rightarrow>
                               (case (df_iloc X train, df_iloc X test, s_iloc y train, s_iloc y test) of
                                  (Inr a, Inr b, Inr c, Inr d) \<Rightarrow>
                                    (Inr \<lparr>X_train = a, X_test = b, y_train = c, y_test = d\<rparr>, global')
                                | _ \<Rightarrow> (Inl IndexError, global')))))"

section \<open>Splitter and pipeline: transform.py, \<open>_split\<close> and \<open>transform_data\<close>\<close>

definition split_df ::
  "'g rnd \<Rightarrow> (nat \<Rightarrow> 'g) \<Rightarrow> dataframe \<Rightarrow> series \<Rightarrow> 'g \<Rightarrow> (py_error + partitions) \<times> 'g" where
  "split_df rnd seed_rng X y global_rng =
     train_test_split rnd seed_rng X y (2 / 10) (Some 42) (s_values y) global_rng"

definition transform_data ::
  "(string \<Rightarrow> int option) \<Rightarrow> 'g rnd \<Rightarrow> (nat \<Rightarrow> 'g) \<Rightarrow> dataframe \<Rightarrow> 'g
     \<Rightarrow> (py_error + partitions \<times> (cell \<times> nat) list) \<times> 'g" where
  "transform_data py_int rnd seed_rng df global_rng =
     (case clean py_int df of
        Inl e \<Rightarrow> (Inl e, global_rng)
      | Inr cleaned \<Rightarrow>
          (case encode cleaned of
             Inl e \<Rightarrow> (Inl e, global_rng)
           | Inr (X, y, mapping) \<Rightarrow>
               (case split_df rnd seed_rng X y global_rng of
                  (Inl e, global') \<Rightarrow> (Inl e, global')
                | (Inr parts, global') \<Rightarrow> (Inr (parts, mapping), global'))))"

subsection \<open>Example inputs of the Splitter\<close>

text \<open>A small generator for examples: the draw is the state, the next state is linear.\<close>

definition lcg :: "nat rnd" where
  "lcg g mx = (g, (5 * g + 3) mod 17)"

text \<open>Fifty rows, one of them the only row of its class.\<close>

definition X50 :: dataframe where
  "X50 = \<lparr>df_index = [0..<50], df_columns = [(''fever'', replicate 50 (Num 1))]\<rparr>"

definition y50 :: series where
  "y50 = \<lparr>s_name = ''target'', s_index = [0..<50], s_values = replicate 49 (Num 0) @ [Num 1]\<rparr>"

text \<open>Ten rows, six of class 0 and four of class 1.\<close>

definition X10 :: dataframe where
  "X10 = \<lparr>df_index = [0..<10],
           df_columns = [(''fever'', map (\<lambda>i. Num (of_nat (i mod 2))) [0..<10])]\<rparr>"

definition y10 :: series where
  "y10 = \<lparr>s_name = ''target'', s_index = [0..<10],
           s_values = map (\<lambda>i. Num (if i mod 3 = 0 then 1 else 0)) [0..<10]\<rparr>"

section \<open>Theorems\<close>

subsection \<open>Source Reader\<close>





subsection \<open>Cleaner\<close>

lemma mapM_Inr_D: "mapM f xs = Inr ys \<Longrightarrow> list_all2 (\<lambda>x y. f x = Inr y) xs ys"
  by (induction xs arbitrary: ys) (auto split: sum.splits)

lemma mapM_Inr_I: "list_all2 (\<lambda>x y. f x = Inr y) xs ys \<Longrightarrow> mapM f xs = Inr ys"
  by (induction xs ys rule: list_all2_induct) auto

lemma mapM_Inr_iff: "mapM f xs = Inr ys \<longleftrightarrow> list_all2 (\<lambda>x y. f x = Inr y) xs ys"
  using mapM_Inr_D mapM_Inr_I by blast

lemma set_unique_in_order: "set (unique_in_order xs) = set xs"
  by (induction xs) auto

lemma distinct_unique_in_order: "distinct (unique_in_order xs)"
  by (induction xs) (auto simp: set_unique_in_order)

lemma fold_max_ge: "(a::nat) \<le> fold max xs a"
  by (induction xs arbitrary: a) (auto intro: order_trans [OF max.cobounded2])

lemma fold_max_mem_ge: "x \<in> set xs \<Longrightarrow> (x::nat) \<le> fold max xs a"
proof (induction xs arbitrary: a)
  case Nil
  then show ?case by simp
next
  case (Cons y ys)
  then show ?case
    using fold_max_ge [of "max y a" ys] by auto
qed

lemma fold_max_in: "fold max xs (a::nat) = a \<or> fold max xs a \<in> set xs"
proof (induction xs arbitrary: a)
  case Nil
  then show ?case by simp
next
  case (Cons y ys)
  show ?case
    using Cons.IH [of "max y a"] by (auto simp: max_def split: if_splits)
qed

lemma mode_alt: "mode xs = (if sortable (htable_mode xs) then sort (htable_mode xs) else htable_mode xs)"
  by (simp add: mode_def Let_def)

lemma count_list_filter_notnull:
  "v \<noteq> NA \<Longrightarrow> count_list (filter (\<lambda>c. \<not> isnull c) xs) v = count_list xs v"
  by (induction xs) (auto simp: isnull_def)

lemma htable_mode_filter:
  "htable_mode xs =
     (let ys = filter (\<lambda>c. \<not> isnull c) xs;
          mx = fold max (map (count_list ys) (unique_in_order ys)) 0
      in filter (\<lambda>v. count_list ys v = mx) (unique_in_order ys))"
proof -
  have a: "map fst (filter (\<lambda>(v, c). c = m) (map (\<lambda>v. (v, g v)) zs)) = filter (\<lambda>v. g v = m) zs"
    for m :: nat and g :: "cell \<Rightarrow> nat" and zs
    by (induction zs) auto
  show ?thesis
    by (simp add: htable_mode_def value_counts_def Let_def a comp_def)
qed

lemma set_htable_mode:
  "set (htable_mode xs) =
     {v \<in> set xs. v \<noteq> NA \<and> (\<forall>w \<in> set xs. w \<noteq> NA \<longrightarrow> count_list xs w \<le> count_list xs v)}"
proof -
  define ys where "ys = filter (\<lambda>c. \<not> isnull c) xs"
  define mx where "mx = fold max (map (count_list ys) (unique_in_order ys)) 0"
  have ys: "set ys = {v \<in> set xs. v \<noteq> NA}"
    by (auto simp: ys_def isnull_def)
  have cnt: "count_list ys v = count_list xs v" if "v \<noteq> NA" for v
    using that by (simp add: ys_def count_list_filter_notnull)
  have ms: "set (htable_mode xs) = {v \<in> set ys. count_list ys v = mx}"
    by (simp add: htable_mode_filter Let_def ys_def mx_def set_unique_in_order)
  have ub: "count_list ys w \<le> mx" if "w \<in> set ys" for w
    unfolding mx_def using that
    by (intro fold_max_mem_ge) (simp add: set_unique_in_order)
  have att: "\<exists>w \<in> set ys. count_list ys w = mx" if "v \<in> set ys" for v
  proof -
    have "count_list ys v \<noteq> 0" using that by (simp add: count_list_0_iff)
    then have "0 < count_list ys v" by simp
    with ub [OF that] have "mx \<noteq> 0" by simp
    with fold_max_in [of "map (count_list ys) (unique_in_order ys)" 0]
    have "mx \<in> set (map (count_list ys) (unique_in_order ys))"
      by (simp add: mx_def)
    then show ?thesis by (auto simp: set_unique_in_order)
  qed
  have "{v \<in> set ys. count_list ys v = mx}
        = {v \<in> set ys. \<forall>w \<in> set ys. count_list ys w \<le> count_list ys v}"
  proof (intro set_eqI iffI)
    fix v assume "v \<in> {v \<in> set ys. count_list ys v = mx}"
    then show "v \<in> {v \<in> set ys. \<forall>w \<in> set ys. count_list ys w \<le> count_list ys v}"
      using ub by auto
  next
    fix v assume "v \<in> {v \<in> set ys. \<forall>w \<in> set ys. count_list ys w \<le> count_list ys v}"
    then have v: "v \<in> set ys" and all: "\<forall>w \<in> set ys. count_list ys w \<le> count_list ys v"
      by auto
    from att [OF v] obtain w where "w \<in> set ys" "count_list ys w = mx" by blast
    with all have "mx \<le> count_list ys v" by auto
    with ub [OF v] have "count_list ys v = mx" by simp
    with v show "v \<in> {v \<in> set ys. count_list ys v = mx}" by simp
  qed
  also have "\<dots> = {v \<in> set xs. v \<noteq> NA \<and> (\<forall>w \<in> set xs. w \<noteq> NA \<longrightarrow> count_list xs w \<le> count_list xs v)}"
  proof -
    have "(\<forall>w \<in> set ys. count_list ys w \<le> count_list ys v)
          = (\<forall>w \<in> set xs. w \<noteq> NA \<longrightarrow> count_list xs w \<le> count_list xs v)"
      if "v \<in> set ys" for v
    proof -
      have v: "v \<noteq> NA" using that ys by simp
      show ?thesis
        unfolding ys using cnt [OF v] cnt by (metis (mono_tags, lifting) mem_Collect_eq)
    qed
    then show ?thesis unfolding ys by blast
  qed
  finally show ?thesis using ms by simp
qed

lemma sortable_subset: "sortable xs \<Longrightarrow> set ys \<subseteq> set xs \<Longrightarrow> sortable ys"
  by (auto simp: sortable_def list_all_iff)

lemma set_mode: "set (mode xs) = set (htable_mode xs)"
  by (simp add: mode_alt)

lemma modes_nonempty:
  assumes "\<exists>v \<in> set xs. v \<noteq> NA"
  shows "htable_mode xs \<noteq> []"
proof -
  define zs where "zs = filter (\<lambda>c. \<not> isnull c) xs"
  define f where "f = count_list xs"
  have ne: "zs \<noteq> []" using assms by (auto simp: zs_def isnull_def filter_empty_conv)
  have "\<exists>v \<in> set zs. \<forall>w \<in> set zs. f w \<le> f v"
  proof -
    have "finite (f ` set zs)" "f ` set zs \<noteq> {}" using ne by auto
    then have "Max (f ` set zs) \<in> f ` set zs" by (rule Max_in)
    then obtain v where v: "v \<in> set zs" "f v = Max (f ` set zs)" by auto
    have "f w \<le> f v" if "w \<in> set zs" for w
      using that v(2) by (simp add: Max_ge)
    with v(1) show ?thesis by blast
  qed
  then obtain v where "v \<in> set zs" "\<forall>w \<in> set zs. f w \<le> f v" by blast
  then have "v \<in> set (htable_mode xs)"
    by (auto simp: set_htable_mode zs_def isnull_def f_def)
  then show ?thesis by auto
qed

lemma hd_mode_least:
  assumes "sortable xs" "mode xs = m # ms"
  shows "\<forall>v \<in> set (mode xs). m \<le> v"
proof -
  have "set (htable_mode xs) \<subseteq> set xs" by (auto simp: set_htable_mode)
  then have "sortable (htable_mode xs)" using assms(1) sortable_subset by blast
  then have "mode xs = sort (htable_mode xs)" by (simp add: mode_alt)
  then have "sorted (mode xs)" by simp
  then have "sorted (m # ms)" using assms(2) by simp
  then show ?thesis using assms(2) by auto
qed

lemma getitem_snoc:
  assumes "t \<notin> fst ` set fs" "df_columns df = fs @ [(t, tv)]"
  shows "getitem df t = Inr tv"
proof -
  have "filter (\<lambda>(nm, vs). nm = t) fs = []"
    using assms(1) by (force simp: filter_empty_conv)
  then show ?thesis by (simp add: getitem_def assms(2))
qed

lemma map_cols_features:
  assumes "t \<notin> fst ` set fs" "df_columns df = fs @ [(t, tv)]"
  shows "df_columns (map_cols (map fst fs) f df) = map (\<lambda>(nm, vs). (nm, f vs)) fs @ [(t, tv)]"
  using assms by (force simp: map_cols_def)

lemma map_cols_target:
  assumes "t \<notin> fst ` set fs" "df_columns df = fs @ [(t, tv)]"
  shows "df_columns (map_cols [t] f df) = fs @ [(t, f tv)]"
proof -
  have "map (\<lambda>(nm, vs). if nm \<in> set [t] then (nm, f vs) else (nm, vs)) fs = fs"
    using assms(1) by (intro map_idI) force
  then show ?thesis by (simp add: map_cols_def assms(2))
qed

lemma astype_cols_features:
  assumes "t \<notin> fst ` set fs" "df_columns df = fs @ [(t, tv)]"
    and "astype_cols py_int (map fst fs) df = Inr df'"
  shows "\<exists>fs'. df_columns df' = fs' @ [(t, tv)] \<and> df_index df' = df_index df \<and>
           list_all2 (\<lambda>(nm, vs) (nm', ws). nm' = nm \<and>
              list_all2 (\<lambda>c c'. astype_int py_int c = Inr c') vs ws) fs fs'"
proof -
  let ?g = "\<lambda>(nm, vs). if nm \<in> set (map fst fs)
                             then (case mapM (astype_int py_int) vs of
                                     Inl e \<Rightarrow> Inl e | Inr ws \<Rightarrow> Inr (nm, ws))
                             else Inr (nm, vs)"
  from assms(3) obtain cs where cs: "mapM ?g (df_columns df) = Inr cs"
    and df': "df' = df\<lparr>df_columns := cs\<rparr>"
    by (auto simp: astype_cols_def split: sum.splits)
  from cs have "list_all2 (\<lambda>x y. ?g x = Inr y) (fs @ [(t, tv)]) cs"
    by (simp add: mapM_Inr_iff assms(2))
  then obtain fs' l where split: "cs = fs' @ l" "list_all2 (\<lambda>x y. ?g x = Inr y) fs fs'"
    "list_all2 (\<lambda>x y. ?g x = Inr y) [(t, tv)] l"
    by (auto simp: list_all2_append1)
  from split(3) assms(1) have l: "l = [(t, tv)]"
    by (auto simp: list_all2_Cons1)
  have "list_all2 (\<lambda>(nm, vs) (nm', ws). nm' = nm \<and>
              list_all2 (\<lambda>c c'. astype_int py_int c = Inr c') vs ws) fs fs'"
    using split(2)
    by (rule list.rel_mono_strong) (force simp: mapM_Inr_iff split: sum.splits if_splits)
  then show ?thesis using df' split(1) l by auto
qed

lemma clean_snoc:
  assumes cols: "df_columns df = fs @ [(t, tv)]" and t: "t \<notin> fst ` set fs"
    and ok: "clean py_int df = Inr df'"
  shows "\<exists>fs' tv'. df_columns df' = fs' @ [(t, tv')] \<and> df_index df' = df_index df \<and>
           list_all2 (\<lambda>(nm, vs) (nm', ws). nm' = nm \<and>
              list_all2 (cleaned_feature py_int) vs ws) fs fs' \<and>
           (if list_ex isnull tv
            then \<exists>m ms. mode tv = m # ms \<and> tv' = fillna m tv
            else tv' = tv)"
proof -
  have names: "last (columns df) = t" "butlast (columns df) = map fst fs"
    by (simp_all add: columns_def cols)
  have ne: "df_columns df \<noteq> []" by (simp add: cols)
  show ?thesis
  proof (cases "any_missing df")
    case False
    then have nomiss: "\<forall>(nm, vs) \<in> set (fs @ [(t, tv)]). \<forall>c \<in> set vs. \<not> isnull c"
      by (auto simp: any_missing_def cols list_ex_iff)
    from ok False ne have "astype_cols py_int (map fst fs) df = Inr df'"
      by (simp add: clean_def Let_def names)
    from astype_cols_features [OF t cols this] obtain fs' where
      fs': "df_columns df' = fs' @ [(t, tv)]" "df_index df' = df_index df"
        "list_all2 (\<lambda>(nm, vs) (nm', ws). nm' = nm \<and>
              list_all2 (\<lambda>c c'. astype_int py_int c = Inr c') vs ws) fs fs'"
      by blast
    have "list_all2 (\<lambda>(nm, vs) (nm', ws). nm' = nm \<and>
              list_all2 (cleaned_feature py_int) vs ws) fs fs'"
      using fs'(3)
    proof (rule list.rel_mono_strong)
      fix x y assume x: "x \<in> set fs"
        and r: "(case x of (nm, vs) \<Rightarrow> \<lambda>(nm', ws). nm' = nm \<and>
              list_all2 (\<lambda>c c'. astype_int py_int c = Inr c') vs ws) y"
      obtain nm vs where xe: "x = (nm, vs)" by (cases x)
      obtain nm' ws where ye: "y = (nm', ws)" by (cases y)
      from x xe nomiss have nn: "\<forall>c \<in> set vs. \<not> isnull c" by auto
      from r xe ye have "nm' = nm" and l: "list_all2 (\<lambda>c c'. astype_int py_int c = Inr c') vs ws"
        by auto
      from l have "list_all2 (cleaned_feature py_int) vs ws"
        by (rule list.rel_mono_strong) (use nn in \<open>simp add: cleaned_feature_def\<close>)
      with \<open>nm' = nm\<close> show "(case x of (nm, vs) \<Rightarrow> \<lambda>(nm', ws). nm' = nm \<and>
              list_all2 (cleaned_feature py_int) vs ws) y"
        by (simp add: xe ye)
    qed
    moreover have "\<not> list_ex isnull tv" using nomiss by (auto simp: list_ex_iff)
    ultimately show ?thesis using fs'(1,2) by auto
  next
    case True
    define df1 where "df1 = map_cols (map fst fs) (fillna (Num 0)) df"
    define fs1 where "fs1 = map (\<lambda>(nm, vs). (nm, fillna (Num 0) vs)) fs"
    have cols1: "df_columns df1 = fs1 @ [(t, tv)]"
      unfolding df1_def fs1_def by (rule map_cols_features [OF t cols])
    have t1: "t \<notin> fst ` set fs1" using t by (force simp: fs1_def)
    have idx1: "df_index df1 = df_index df" by (simp add: df1_def map_cols_def)
    have names1: "map fst fs1 = map fst fs" by (auto simp: fs1_def)
    have get1: "getitem df1 t = Inr tv" by (rule getitem_snoc [OF t1 cols1])
    define tv' where "tv' = (if list_ex isnull tv then fillna (hd (mode tv)) tv else tv)"
    define df2 where "df2 = (if list_ex isnull tv then map_cols [t] (fillna (hd (mode tv))) df1 else df1)"
    have md: "mode tv \<noteq> []" if "list_ex isnull tv"
      using ok True ne that
      by (auto simp: clean_def Let_def names df1_def [symmetric] get1 split: list.splits)
    have ok2: "astype_cols py_int (map fst fs) df2 = Inr df'"
      using ok True ne md
      by (auto simp: clean_def Let_def names df1_def [symmetric] get1 df2_def
               split: list.splits sum.splits if_splits)
    have cols2: "df_columns df2 = fs1 @ [(t, tv')]"
      by (simp add: df2_def tv'_def cols1 map_cols_target [OF t1 cols1])
    have idx2: "df_index df2 = df_index df" by (simp add: df2_def idx1 map_cols_def)
    from astype_cols_features [OF t1 cols2] ok2 names1 obtain fs' where
      fs': "df_columns df' = fs' @ [(t, tv')]" "df_index df' = df_index df2"
        "list_all2 (\<lambda>(nm, vs) (nm', ws). nm' = nm \<and>
              list_all2 (\<lambda>c c'. astype_int py_int c = Inr c') vs ws) fs1 fs'"
      by metis
    have "list_all2 (\<lambda>(nm, vs) (nm', ws). nm' = nm \<and>
              list_all2 (cleaned_feature py_int) vs ws) fs fs'"
      using fs'(3) unfolding fs1_def list_all2_map1
      by (rule list_all2_mono)
         (auto simp: fillna_def list_all2_map1 cleaned_feature_def [abs_def])
    moreover have "if list_ex isnull tv
            then \<exists>m ms. mode tv = m # ms \<and> tv' = fillna m tv
            else tv' = tv"
      using md by (cases "mode tv") (auto simp: tv'_def)
    ultimately show ?thesis using fs'(1,2) idx2 by auto
  qed
qed

lemma set_mode_props:
  assumes "m \<in> set (mode tv)"
  shows "m \<in> set tv" "m \<noteq> NA" "\<forall>w \<in> set tv. w \<noteq> NA \<longrightarrow> count_list tv w \<le> count_list tv m"
  using assms by (auto simp: set_mode set_htable_mode)


lemma clean_decompose:
  assumes "clean py_int df = Inr df'" "distinct (columns df)"
  obtains fs t tv where "df_columns df = fs @ [(t, tv)]" "t \<notin> fst ` set fs"
proof -
  from assms(1) have ne: "df_columns df \<noteq> []"
    by (auto simp: clean_def split: if_splits)
  then obtain fs l where d: "df_columns df = fs @ [l]"
    by (metis append_butlast_last_id)
  obtain t tv where l: "l = (t, tv)" by (cases l)
  from assms(2) have "t \<notin> fst ` set fs"
    by (auto simp: columns_def d l)
  with d l that show thesis by blast
qed


text \<open>
  C6 (as amended): when the label column has missing cells and its values can be sorted,
  the Cleaner fills them with a non-missing value of the original label column (feature
  imputation does not touch that column) whose count is highest, and among the values of
  highest count it is the smallest in sorted order.
\<close>

theorem clean_label_mode:
  assumes "clean py_int df = Inr df'" and "distinct (columns df)"
    and "list_ex isnull (snd (last (df_columns df)))"
    and "sortable (snd (last (df_columns df)))"
  shows "\<exists>m. snd (last (df_columns df')) = fillna m (snd (last (df_columns df))) \<and>
           m \<noteq> NA \<and> m \<in> set (snd (last (df_columns df))) \<and>
           (\<forall>w \<in> set (snd (last (df_columns df))). w \<noteq> NA \<longrightarrow>
              count_list (snd (last (df_columns df))) w \<le> count_list (snd (last (df_columns df))) m) \<and>
           (\<forall>w \<in> set (snd (last (df_columns df))). w \<noteq> NA \<and>
              count_list (snd (last (df_columns df))) w = count_list (snd (last (df_columns df))) m
              \<longrightarrow> m \<le> w)"
proof -
  from assms(1,2) obtain fs t tv where cols: "df_columns df = fs @ [(t, tv)]" and t: "t \<notin> fst ` set fs"
    by (rule clean_decompose)
  from clean_snoc [OF cols t assms(1)] assms(3) obtain fs' m ms where
    cols': "df_columns df' = fs' @ [(t, fillna m tv)]" and m: "mode tv = m # ms"
    by (auto simp: cols)
  have mem: "m \<in> set (mode tv)" by (simp add: m)
  have srt: "sortable tv" using assms(4) by (simp add: cols)
  have least: "\<forall>v \<in> set (mode tv). m \<le> v" by (rule hd_mode_least [OF srt m])
  have "m \<le> w" if "w \<in> set tv" "w \<noteq> NA" "count_list tv w = count_list tv m" for w
  proof -
    have "w \<in> set (mode tv)"
      using that set_mode_props(3) [OF mem] by (auto simp: set_mode set_htable_mode)
    with least show ?thesis by blast
  qed
  then show ?thesis
    using set_mode_props [OF mem] by (auto simp: cols cols')
qed

lemma clean_raw_example: "clean (\<lambda>s. None) raw_example = Inr cleaned_example"
  by code_simp

lemma distinct_raw_example: "distinct (columns raw_example)"
  by code_simp

lemma label_missing_raw_example: "list_ex isnull (snd (last (df_columns raw_example)))"
  by code_simp

lemma label_sortable_raw_example: "sortable (snd (last (df_columns raw_example)))"
  by code_simp



theorem clean_label_mode_witness:
  "clean (\<lambda>s. None) raw_example = Inr cleaned_example \<and> distinct (columns raw_example) \<and>
   list_ex isnull (snd (last (df_columns raw_example))) \<and>
   sortable (snd (last (df_columns raw_example))) \<and>
   (\<exists>m. snd (last (df_columns cleaned_example)) = fillna m (snd (last (df_columns raw_example))) \<and>
           m \<noteq> NA \<and> m \<in> set (snd (last (df_columns raw_example))) \<and>
           (\<forall>w \<in> set (snd (last (df_columns raw_example))). w \<noteq> NA \<longrightarrow>
              count_list (snd (last (df_columns raw_example))) w
                \<le> count_list (snd (last (df_columns raw_example))) m) \<and>
           (\<forall>w \<in> set (snd (last (df_columns raw_example))). w \<noteq> NA \<and>
              count_list (snd (last (df_columns raw_example))) w
                = count_list (snd (last (df_columns raw_example))) m
              \<longrightarrow> m \<le> w))"
  using clean_label_mode [OF clean_raw_example distinct_raw_example
      label_missing_raw_example label_sortable_raw_example]
    clean_raw_example distinct_raw_example label_missing_raw_example label_sortable_raw_example
  by blast

text \<open>
  Against C6 as stated: in the label column B, A, missing, the two values are equally
  frequent and the frequency count meets B first, but the Cleaner fills in A.
\<close>

theorem clean_tie_not_first_encountered:
  "hd (htable_mode [Str ''B'', Str ''A'', NA]) = Str ''B'' \<and>
   clean (\<lambda>s. None)
     \<lparr>df_index = [0, 1, 2],
      df_columns = [(''fever'', [Num 1, Num 0, Num 1]), (''label'', [Str ''B'', Str ''A'', NA])]\<rparr>
   = Inr \<lparr>df_index = [0, 1, 2],
      df_columns = [(''fever'', [Num 1, Num 0, Num 1]),
                    (''label'', [Str ''B'', Str ''A'', Str ''A''])]\<rparr>"
  by code_simp


subsection \<open>Encoder\<close>

lemma index_of_nth: "distinct cs \<Longrightarrow> i < length cs \<Longrightarrow> index_of cs (cs ! i) = Some i"
proof (induction cs arbitrary: i)
  case Nil
  then show ?case by simp
next
  case (Cons c cs)
  then show ?case by (cases i) auto
qed

lemma index_of_mem: "v \<in> set cs \<Longrightarrow> \<exists>i. index_of cs v = Some i \<and> i < length cs \<and> cs ! i = v"
  by (induction cs) auto

lemma index_of_SomeD: "index_of cs v = Some i \<Longrightarrow> i < length cs \<and> cs ! i = v"
  by (induction cs arbitrary: i) (auto split: if_splits)

lemma transform_classes:
  assumes "distinct cs"
  shows "transform cs cs = Inr [0..<length cs]"
proof -
  have "list_all2 (\<lambda>x y. (case index_of cs x of None \<Rightarrow> Inl ValueError | Some i \<Rightarrow> Inr i) = Inr y)
          cs [0..<length cs]"
    using assms by (simp add: list_all2_conv_all_nth index_of_nth)
  then show ?thesis by (simp add: transform_def mapM_Inr_iff)
qed

lemma transform_seen:
  assumes "set y \<subseteq> set cs"
  shows "\<exists>codes. transform cs y = Inr codes \<and> length codes = length y \<and>
           (\<forall>k < length y. codes ! k < length cs \<and> cs ! (codes ! k) = y ! k)"
proof -
  define codes where "codes = map (\<lambda>v. the (index_of cs v)) y"
  have a: "index_of cs (y ! k) = Some (codes ! k) \<and> codes ! k < length cs \<and> cs ! (codes ! k) = y ! k"
    if "k < length y" for k
  proof -
    have "y ! k \<in> set cs" using assms that by auto
    from index_of_mem [OF this] show ?thesis using that by (auto simp: codes_def)
  qed
  have "list_all2 (\<lambda>x c. (case index_of cs x of None \<Rightarrow> Inl ValueError | Some i \<Rightarrow> Inr i) = Inr c)
          y codes"
  proof (rule list_all2_all_nthI)
    show "length y = length codes" by (simp add: codes_def)
  next
    fix n assume "n < length y"
    from a [OF this] show "(case index_of cs (y ! n) of None \<Rightarrow> Inl ValueError | Some i \<Rightarrow> Inr i)
              = Inr (codes ! n)" by simp
  qed
  then have "transform cs y = Inr codes" by (simp add: transform_def mapM_Inr_iff)
  then show ?thesis using a by (auto simp: codes_def)
qed

lemma encode_result:
  assumes "df_columns df \<noteq> []" "getitem df (last (columns df)) = Inr labels" "sortable labels"
  shows "\<exists>codes. encode df =
           Inr (drop_columns [last (columns df)] df,
                \<lparr>s_name = ''target'', s_index = df_index df,
                 s_values = map (\<lambda>i. Num (of_nat i)) codes\<rparr>,
                label_mapping labels) \<and>
           length codes = length labels \<and>
           (\<forall>k < length labels. codes ! k < card (set labels) \<and>
               sorted_list_of_set (set labels) ! (codes ! k) = labels ! k)"
proof -
  define cs where "cs = sort (remdups labels)"
  have cs: "cs = sorted_list_of_set (set labels)"
    by (simp add: cs_def sorted_list_of_set_sort_remdups)
  have d: "distinct cs" and s: "set cs = set labels" and l: "length cs = card (set labels)"
    by (simp_all add: cs)
  have fit: "fit labels = Inr cs" using assms(3) by (simp add: fit_def cs_def)
  from transform_seen [of labels cs] s obtain codes where
    codes: "transform cs labels = Inr codes" "length codes = length labels"
      "\<forall>k < length labels. codes ! k < length cs \<and> cs ! (codes ! k) = labels ! k"
    by auto
  have "encode df =
           Inr (drop_columns [last (columns df)] df,
                \<lparr>s_name = ''target'', s_index = df_index df,
                 s_values = map (\<lambda>i. Num (of_nat i)) codes\<rparr>,
                zip cs [0..<length cs])"
    using assms(1,2) fit codes(1) transform_classes [OF d]
    by (simp add: encode_def Let_def fit_transform_def)
  then show ?thesis using codes(2,3) by (auto simp: label_mapping_def cs [symmetric] l)
qed

lemma sortable_cong_set: "set xs = set ys \<Longrightarrow> sortable xs = sortable ys"
  by (simp add: sortable_def list_all_iff)

lemma label_mapping_fst: "map fst (label_mapping labels) = sorted_list_of_set (set labels)"
  by (simp add: label_mapping_def)

lemma label_mapping_snd: "map snd (label_mapping labels) = [0..<card (set labels)]"
  by (simp add: label_mapping_def)

text \<open>
  C3: for every table with at least one column whose label column (the last) holds values
  that can be sorted (all strings, or all numbers), the Encoder returns, and the mapping it
  returns pairs the distinct label values, sorted (lexicographically for strings), with the
  codes 0, 1, \<dots>, K-1 in that order; every table whose label column is a rearrangement
  of the same values gets the same mapping.
\<close>

theorem encode_mapping_sorted:
  assumes "df_columns df \<noteq> []" and "getitem df (last (columns df)) = Inr labels"
    and "sortable labels"
  shows "\<exists>m. (\<exists>X y. encode df = Inr (X, y, m)) \<and>
           m = zip (sorted_list_of_set (set labels)) [0..<card (set labels)] \<and>
           sorted (map fst m) \<and> distinct (map fst m) \<and> set (map fst m) = set labels \<and>
           map snd m = [0..<card (set labels)] \<and>
           (\<forall>df' labels'. df_columns df' \<noteq> [] \<and> getitem df' (last (columns df')) = Inr labels' \<and>
                mset labels' = mset labels \<longrightarrow> (\<exists>X' y'. encode df' = Inr (X', y', m)))"
proof -
  from encode_result [OF assms] have e: "\<exists>X y. encode df = Inr (X, y, label_mapping labels)"
    by blast
  have other: "\<exists>X' y'. encode df' = Inr (X', y', label_mapping labels)"
    if "df_columns df' \<noteq> []" "getitem df' (last (columns df')) = Inr labels'"
      "mset labels' = mset labels" for df' labels'
  proof -
    have st: "set labels' = set labels" using that(3) by (metis set_mset_mset)
    then have "sortable labels'" using assms(3) sortable_cong_set by blast
    from encode_result [OF that(1,2) this] have "\<exists>X y. encode df' = Inr (X, y, label_mapping labels')"
      by blast
    then show ?thesis by (simp add: label_mapping_def st)
  qed
  show ?thesis
  proof (rule exI [of _ "label_mapping labels"], intro conjI)
    show "\<exists>X y. encode df = Inr (X, y, label_mapping labels)" by (rule e)
    show "label_mapping labels = zip (sorted_list_of_set (set labels)) [0..<card (set labels)]"
      by (simp add: label_mapping_def)
    show "sorted (map fst (label_mapping labels))" by (simp add: label_mapping_fst)
    show "distinct (map fst (label_mapping labels))" by (simp add: label_mapping_fst)
    show "set (map fst (label_mapping labels)) = set labels" by (simp add: label_mapping_fst)
    show "map snd (label_mapping labels) = [0..<card (set labels)]" by (rule label_mapping_snd)
    show "\<forall>df' labels'. df_columns df' \<noteq> [] \<and> getitem df' (last (columns df')) = Inr labels' \<and>
                mset labels' = mset labels \<longrightarrow> (\<exists>X' y'. encode df' = Inr (X', y', label_mapping labels))"
      using other by blast
  qed
qed

lemma code_of_cell_nat: "code_of_cell (Num (of_nat i)) = Some i"
  by (simp add: code_of_cell_def)

lemma inverse_label_mapping:
  assumes "i < card (set labels)"
  shows "inverse_mapping (label_mapping labels) i = Some (sorted_list_of_set (set labels) ! i)"
proof -
  let ?cs = "sorted_list_of_set (set labels)"
  let ?K = "card (set labels)"
  have "map (\<lambda>(k, v). (v, k)) (zip ?cs [0..<?K]) = zip [0..<?K] ?cs"
    using zip_commute [of "[0..<?K]" ?cs] by simp
  moreover have "map_of (zip [0..<?K] ?cs) ([0..<?K] ! i) = Some (?cs ! i)"
    using assms by (intro map_of_zip_nth) simp_all
  ultimately show ?thesis using assms by (simp add: inverse_mapping_def label_mapping_def)
qed

lemma map_of_label_mapping:
  assumes "i < card (set labels)"
  shows "map_of (label_mapping labels) (sorted_list_of_set (set labels) ! i) = Some i"
proof -
  have "map_of (zip (sorted_list_of_set (set labels)) [0..<card (set labels)])
          (sorted_list_of_set (set labels) ! i) = Some ([0..<card (set labels)] ! i)"
    using assms by (intro map_of_zip_nth) simp_all
  then show ?thesis using assms by (simp add: label_mapping_def)
qed

text \<open>
  C4: for every such table the Encoder returns, and decoding each output code through the
  inverse of the returned mapping gives back the label of the same row, so the decoded
  codes are the original labels as a multiset; the mapping is defined and one-to-one on
  the labels present.
\<close>

theorem encode_invertible:
  assumes "df_columns df \<noteq> []" and "getitem df (last (columns df)) = Inr labels"
    and "sortable labels"
  shows "\<exists>X y m. encode df = Inr (X, y, m) \<and>
           map (decode m) (s_values y) = map Some labels \<and>
           mset (map (decode m) (s_values y)) = mset (map Some labels) \<and>
           (\<forall>l \<in> set labels. \<exists>i. map_of m l = Some i) \<and>
           inj_on (map_of m) (set labels)"
proof -
  let ?cs = "sorted_list_of_set (set labels)"
  from encode_result [OF assms] obtain codes where
    e: "encode df = Inr (drop_columns [last (columns df)] df,
                \<lparr>s_name = ''target'', s_index = df_index df,
                 s_values = map (\<lambda>i. Num (of_nat i)) codes\<rparr>,
                label_mapping labels)"
    and len: "length codes = length labels"
    and codes: "\<forall>k < length labels. codes ! k < card (set labels) \<and> ?cs ! (codes ! k) = labels ! k"
    by blast
  have dec: "map (decode (label_mapping labels)) (map (\<lambda>i. Num (of_nat i)) codes) = map Some labels"
  proof (rule nth_equalityI)
    show "length (map (decode (label_mapping labels)) (map (\<lambda>i. Num (of_nat i)) codes))
            = length (map Some labels)" by (simp add: len)
  next
    fix k assume "k < length (map (decode (label_mapping labels)) (map (\<lambda>i. Num (of_nat i)) codes))"
    then have k: "k < length labels" by (simp add: len)
    with codes have c: "codes ! k < card (set labels)" "?cs ! (codes ! k) = labels ! k" by auto
    show "map (decode (label_mapping labels)) (map (\<lambda>i. Num (of_nat i)) codes) ! k
            = map Some labels ! k"
      using k len c by (simp add: decode_def code_of_cell_nat inverse_label_mapping)
  qed
  have idx: "\<exists>i < card (set labels). l = ?cs ! i" if "l \<in> set labels" for l
  proof -
    from that have "l \<in> set ?cs" by simp
    then show ?thesis by (metis in_set_conv_nth length_sorted_list_of_set)
  qed
  have tot: "\<forall>l \<in> set labels. \<exists>i. map_of (label_mapping labels) l = Some i"
    using idx map_of_label_mapping by metis
  have inj: "inj_on (map_of (label_mapping labels)) (set labels)"
  proof (rule inj_onI)
    fix a b assume "a \<in> set labels" "b \<in> set labels"
      and eq: "map_of (label_mapping labels) a = map_of (label_mapping labels) b"
    then obtain i j where i: "i < card (set labels)" "a = ?cs ! i"
      and j: "j < card (set labels)" "b = ?cs ! j" using idx by metis
    with eq map_of_label_mapping have "i = j" by simp
    with i j show "a = b" by simp
  qed
  let ?y = "\<lparr>s_name = ''target'', s_index = df_index df,
                 s_values = map (\<lambda>i. Num (of_nat i)) codes\<rparr>"
  have dec1: "map (decode (label_mapping labels)) (s_values ?y) = map Some labels"
    using dec by simp
  have dec2: "mset (map (decode (label_mapping labels)) (s_values ?y)) = mset (map Some labels)"
    using dec1 by (rule arg_cong)
  show ?thesis using e dec1 dec2 tot inj by blast
qed

lemma columns_cleaned_example: "df_columns cleaned_example \<noteq> []"
  by (simp add: cleaned_example_def)

lemma labels_cleaned_example:
  "getitem cleaned_example (last (columns cleaned_example)) = Inr [Str ''B'', Str ''A'', Str ''A'']"
  by code_simp

lemma sortable_cleaned_example: "sortable [Str ''B'', Str ''A'', Str ''A'']"
  by code_simp

theorem encode_mapping_sorted_witness:
  "df_columns cleaned_example \<noteq> [] \<and>
   getitem cleaned_example (last (columns cleaned_example)) = Inr [Str ''B'', Str ''A'', Str ''A''] \<and>
   sortable [Str ''B'', Str ''A'', Str ''A''] \<and>
   (\<exists>X y. encode cleaned_example = Inr (X, y, [(Str ''A'', 0), (Str ''B'', 1)]))"
proof -
  have ev: "zip (sorted_list_of_set (set [Str ''B'', Str ''A'', Str ''A'']))
              [0..<card (set [Str ''B'', Str ''A'', Str ''A''])] = [(Str ''A'', 0), (Str ''B'', 1)]"
    by code_simp
  from encode_mapping_sorted
         [OF columns_cleaned_example labels_cleaned_example sortable_cleaned_example]
  have "\<exists>X y. encode cleaned_example = Inr (X, y, [(Str ''A'', 0), (Str ''B'', 1)])"
    unfolding ev by blast
  then show ?thesis
    using columns_cleaned_example labels_cleaned_example sortable_cleaned_example by blast
qed

theorem encode_invertible_witness:
  "df_columns cleaned_example \<noteq> [] \<and>
   getitem cleaned_example (last (columns cleaned_example)) = Inr [Str ''B'', Str ''A'', Str ''A''] \<and>
   sortable [Str ''B'', Str ''A'', Str ''A''] \<and>
   (\<exists>X y m. encode cleaned_example = Inr (X, y, m) \<and>
      map (decode m) (s_values y) = [Some (Str ''B''), Some (Str ''A''), Some (Str ''A'')])"
proof -
  from encode_invertible
         [OF columns_cleaned_example labels_cleaned_example sortable_cleaned_example]
  have "\<exists>X y m. encode cleaned_example = Inr (X, y, m) \<and>
      map (decode m) (s_values y) = map Some [Str ''B'', Str ''A'', Str ''A'']"
    by blast
  then show ?thesis
    using columns_cleaned_example labels_cleaned_example sortable_cleaned_example by simp
qed


subsection \<open>Splitter: classes with a single member\<close>

lemma iter_indices_singleton:
  assumes "v \<in> set y" "count_list y v = 1"
  shows "iter_indices rnd y n_train n_test rng = (Inl ValueError, rng) \<or>
         iter_indices rnd y n_train n_test rng = (Inl TypeError, rng)"
proof -
  have "v \<in> set (sort (remdups y))" using assms(1) by simp
  then have "list_ex (\<lambda>c. c < 2) (map (count_list y) (sort (remdups y)))"
    using assms by (auto simp: list_ex_iff intro!: bexI [of _ v])
  then show ?thesis by (simp add: iter_indices_def Let_def)
qed

text \<open>
  C1 (as amended): whenever some label value occurs exactly once, the Splitter raises (the
  stratified split rejects a class with fewer than two members, whatever the row count)
  and the process-wide generator is left as it was; no partition is returned.
\<close>

theorem split_singleton_class_raises:
  assumes "v \<in> set (s_values y)" and "count_list (s_values y) v = 1"
  shows "split_df rnd seed_rng X y g = (Inl ValueError, g) \<or>
         split_df rnd seed_rng X y g = (Inl TypeError, g)"
proof (cases "length (s_values y) = length (df_index X)")
  case False
  then show ?thesis by (simp add: split_df_def train_test_split_def)
next
  case True
  show ?thesis
  proof (cases "validate_shuffle_split (length (df_index X)) (2 / 10)")
    case (Inl e)
    then have "e = ValueError" by (auto simp: validate_shuffle_split_def Let_def split: if_splits)
    with Inl True show ?thesis by (simp add: split_df_def train_test_split_def)
  next
    case (Inr p)
    obtain n_train n_test where p: "p = (n_train, n_test)" by (cases p)
    from iter_indices_singleton [OF assms, of rnd n_train n_test "seed_rng 42"]
    show ?thesis
      using True Inr p
      by (auto simp: split_df_def train_test_split_def check_random_state_def)
  qed
qed

theorem split_singleton_class_raises_witness:
  "Num 1 \<in> set (s_values y50) \<and> count_list (s_values y50) (Num 1) = 1 \<and>
   (split_df lcg (\<lambda>s. s) X50 y50 7 = (Inl ValueError, 7) \<or>
    split_df lcg (\<lambda>s. s) X50 y50 7 = (Inl TypeError, 7))"
proof -
  have h1: "Num 1 \<in> set (s_values y50)" by (simp add: y50_def)
  have h2: "count_list (s_values y50) (Num 1) = 1" by code_simp
  from split_singleton_class_raises
         [OF h1 h2, where rnd = lcg and seed_rng = "\<lambda>s. s" and X = X50 and g = 7]
    h1 h2
  show ?thesis by blast
qed

text \<open>
  Against C1 as stated: fifty rows, one label value occurring exactly once, and the
  Splitter raises ValueError.
\<close>

theorem split_singleton_of_50_raises:
  "length (df_index X50) = 50 \<and> count_list (s_values y50) (Num 1) = 1 \<and>
   split_df lcg (\<lambda>s. s) X50 y50 7 = (Inl ValueError, 7)"
  by code_simp

end
